theory Spec2Isabelle
  imports Complex_Main
begin

section \<open>Double-precision values\<close>

text \<open>
  The program computes with C++ \<^verbatim>\<open>double\<close>, the binary64 format of IEEE 754. A
  value is a finite real number or one of the three special values. Every operation
  on finite values returns the exact real result rounded to binary64 by \<open>rnd\<close>: to
  the nearest representable number, a tie to the one with an even significand, with
  overflow to an infinity and gradual underflow (subnormal numbers, multiples of
  \<open>pow2 (- 1074)\<close>, then zero). On the special values the operations follow IEEE 754
  (a nonzero number divided by zero is an infinity, zero divided by zero and infinity
  times zero are NaN, NaN propagates). The sign of zero is not modelled: there is one
  zero.
\<close>

datatype double = Fin real | PInf | NInf | NaN

fun is_finite :: "double \<Rightarrow> bool" where
  "is_finite (Fin a) = True"
| "is_finite PInf = False"
| "is_finite NInf = False"
| "is_finite NaN = False"

text \<open>The power \<open>2\<^sup>e\<close> for an integer \<open>e\<close>.\<close>

definition pow2 :: "int \<Rightarrow> real" where
  "pow2 e = (if 0 \<le> e then 2 ^ nat e else 1 / 2 ^ nat (- e))"

text \<open>
  The binary exponent of a positive real \<open>a\<close>, kept between \<open>-1022\<close> (the exponent of
  the subnormal numbers) and \<open>1024\<close>: the \<open>e\<close> with \<open>pow2 e \<le> a < pow2 (e + 1)\<close> when
  that lies in the range. It is found by halving, or doubling, at most that many times.
\<close>

fun expo_up :: "nat \<Rightarrow> real \<Rightarrow> int" where
  "expo_up 0 a = 0"
| "expo_up (Suc k) a = (if a < 2 then 0 else expo_up k (a / 2) + 1)"

fun expo_down :: "nat \<Rightarrow> real \<Rightarrow> int" where
  "expo_down 0 a = 0"
| "expo_down (Suc k) a = (if 1 \<le> a then 0 else expo_down k (a * 2) - 1)"

definition exponent :: "real \<Rightarrow> int" where
  "exponent a = (if 1 \<le> a then expo_up 1024 a else expo_down 1022 a)"

text \<open>The integer nearest to a real that is not negative, a tie to the even one.\<close>

definition round_even :: "real \<Rightarrow> int" where
  "round_even t =
     (let n = \<lfloor>t\<rfloor>; d = t - of_int n
      in if d < 1 / 2 then n
         else if 1 / 2 < d then n + 1
         else if even n then n else n + 1)"

text \<open>
  Rounding to binary64: the magnitude is rounded to a multiple of the spacing
  \<open>pow2 (e - 52)\<close> of the numbers with its exponent \<open>e\<close> (53 significant bits); a
  result of \<open>pow2 1024\<close> or more is an infinity.
\<close>

definition rnd :: "real \<Rightarrow> double" where
  "rnd r =
     (if r = 0 then Fin 0
      else let a = \<bar>r\<bar>;
               q = pow2 (exponent a - 52);
               val = of_int (round_even (a / q)) * q
           in if pow2 1024 \<le> val then (if 0 < r then PInf else NInf)
              else Fin (if 0 < r then val else - val))"

fun dneg :: "double \<Rightarrow> double" where
  "dneg (Fin a) = Fin (- a)"
| "dneg PInf = NInf"
| "dneg NInf = PInf"
| "dneg NaN = NaN"

fun dadd :: "double \<Rightarrow> double \<Rightarrow> double" where
  "dadd (Fin a) (Fin b) = rnd (a + b)"
| "dadd NaN _ = NaN"
| "dadd _ NaN = NaN"
| "dadd PInf NInf = NaN"
| "dadd NInf PInf = NaN"
| "dadd PInf _ = PInf"
| "dadd _ PInf = PInf"
| "dadd NInf _ = NInf"
| "dadd _ NInf = NInf"

definition dsub :: "double \<Rightarrow> double \<Rightarrow> double" where
  "dsub a b = dadd a (dneg b)"

text \<open>The sign of a value: 1, -1, or 0 for a zero (and for NaN, where it is not used).\<close>

fun dsign :: "double \<Rightarrow> int" where
  "dsign (Fin a) = (if a > 0 then 1 else if a < 0 then -1 else 0)"
| "dsign PInf = 1"
| "dsign NInf = -1"
| "dsign NaN = 0"

fun dmul :: "double \<Rightarrow> double \<Rightarrow> double" where
  "dmul (Fin a) (Fin b) = rnd (a * b)"
| "dmul NaN _ = NaN"
| "dmul _ NaN = NaN"
| "dmul a b = (if dsign a * dsign b = 0 then NaN
               else if dsign a * dsign b > 0 then PInf else NInf)"

fun ddiv :: "double \<Rightarrow> double \<Rightarrow> double" where
  "ddiv (Fin a) (Fin b) =
     (if b \<noteq> 0 then rnd (a / b)
      else if a = 0 then NaN
      else if a > 0 then PInf else NInf)"
| "ddiv NaN _ = NaN"
| "ddiv _ NaN = NaN"
| "ddiv (Fin a) _ = Fin 0"
| "ddiv a (Fin b) = (if dsign a * (if b < 0 then -1 else 1) > 0 then PInf else NInf)"
| "ddiv _ _ = NaN"

fun dsqrt :: "double \<Rightarrow> double" where
  "dsqrt (Fin a) = (if a < 0 then NaN else rnd (sqrt a))"
| "dsqrt PInf = PInf"
| "dsqrt NInf = NaN"
| "dsqrt NaN = NaN"

text \<open>Conversion of an \<^verbatim>\<open>int\<close> to \<^verbatim>\<open>double\<close> (exact: every \<^verbatim>\<open>int\<close> of 32 bits is
  a binary64 number), and of a \<^verbatim>\<open>double\<close> to \<^verbatim>\<open>int\<close> (truncation toward zero;
  undefined in C++ for the special values and outside the range of \<^verbatim>\<open>int\<close>, hence
  \<open>None\<close>).\<close>

definition double_of_int :: "int \<Rightarrow> double" where
  "double_of_int i = Fin (of_int i)"

definition INT_MIN :: int where
  "INT_MIN = - 2147483648"

definition INT_MAX :: int where
  "INT_MAX = 2147483647"

fun int_of_double :: "double \<Rightarrow> int option" where
  "int_of_double (Fin a) =
     (let t = (if a \<ge> 0 then \<lfloor>a\<rfloor> else \<lceil>a\<rceil>)
      in if INT_MIN \<le> t \<and> t \<le> INT_MAX then Some t else None)"
| "int_of_double _ = None"

section \<open>Bodies, force and integration\<close>

text \<open>\<^verbatim>\<open>class body\<close>: mass \<open>m\<close>, position \<open>(x, y)\<close>, velocity \<open>(v, w)\<close> and
  accumulated force \<open>(f, g)\<close>. The constructor draws mass, position and velocity at
  random, so the initial population is an input of the model.\<close>

record body =
  m :: double
  x :: double
  y :: double
  v :: double
  w :: double
  f :: double
  g :: double

text \<open>\<^verbatim>\<open>double const C=1.01;\<close>: the binary64 number nearest to the literal.\<close>

definition C :: double where
  "C = rnd 1.01"

text \<open>\<^verbatim>\<open>body fsum ( body computed, body affecting )\<close>\<close>

definition fsum :: "body \<Rightarrow> body \<Rightarrow> body" where
  "fsum computed affecting =
     (let xvec = dsub (x affecting) (x computed);
          yvec = dsub (y affecting) (y computed);
          bodyd = dsqrt (dadd (dmul xvec xvec) (dmul yvec yvec));
          fscal = ddiv (dmul (dmul C (m computed)) (m affecting))
                       (dmul (dmul bodyd bodyd) bodyd);
          computed = computed\<lparr> f := dadd (f computed) (dmul fscal xvec) \<rparr>;
          computed = computed\<lparr> g := dadd (g computed) (dmul fscal yvec) \<rparr>
      in computed)"

text \<open>\<^verbatim>\<open>body integrate ( body computed, double dt )\<close>\<close>

definition integrate :: "body \<Rightarrow> double \<Rightarrow> body" where
  "integrate computed dt =
     (let computed = computed\<lparr> v := dadd (v computed) (ddiv (dmul dt (f computed)) (m computed)) \<rparr>;
          computed = computed\<lparr> w := dadd (w computed) (ddiv (dmul dt (g computed)) (m computed)) \<rparr>;
          computed = computed\<lparr> x := dadd (x computed) (dmul dt (v computed)) \<rparr>;
          computed = computed\<lparr> y := dadd (y computed) (dmul dt (w computed)) \<rparr>
      in computed)"

section \<open>The simulation loop\<close>

text \<open>
  The state of the loop in \<^verbatim>\<open>main\<close>: the array \<^verbatim>\<open>bodies\<close> (its length is
  \<^verbatim>\<open>num_bodies\<close>) and, as an observer that the program does not have, the log of the
  calls of \<^verbatim>\<open>fsum\<close> made so far, each as the pair of indices \<open>(i, j)\<close> of
  \<^verbatim>\<open>fsum( bodies[i], bodies[j] )\<close>, latest first.
\<close>

record sim =
  bodies :: "body list"
  calls :: "(nat \<times> nat) list"

text \<open>The loop over \<open>j\<close> (lines 168 to 171), for the indices \<open>js\<close> still to visit.\<close>

fun force_inner :: "nat \<Rightarrow> nat list \<Rightarrow> sim \<Rightarrow> sim" where
  "force_inner i [] s = s"
| "force_inner i (j # js) s =
     (if j = i then force_inner i js s
      else force_inner i js
             (s\<lparr> bodies := (bodies s)[i := fsum (bodies s ! i) (bodies s ! j)],
                calls := (i, j) # calls s \<rparr>))"

text \<open>The loop over \<open>i\<close> (lines 165 to 172): reset the force of body \<open>i\<close>, then
  accumulate over every \<open>j\<close>.\<close>

fun force_outer :: "nat list \<Rightarrow> sim \<Rightarrow> sim" where
  "force_outer [] s = s"
| "force_outer (i # is) s =
     (let s = s\<lparr> bodies := (bodies s)[i := (bodies s ! i)\<lparr> f := Fin 0 \<rparr>] \<rparr>;
          s = s\<lparr> bodies := (bodies s)[i := (bodies s ! i)\<lparr> g := Fin 0 \<rparr>] \<rparr>;
          s = force_inner i [0 ..< length (bodies s)] s
      in force_outer is s)"

definition force_phase :: "sim \<Rightarrow> sim" where
  "force_phase s = force_outer [0 ..< length (bodies s)] s"

text \<open>The loop that solves the ODEs (lines 175 to 179); \<^verbatim>\<open>delta_t\<close> is an \<^verbatim>\<open>int\<close>,
  converted to \<^verbatim>\<open>double\<close> at the call of \<^verbatim>\<open>integrate\<close>.\<close>

fun integrate_loop :: "int \<Rightarrow> nat list \<Rightarrow> sim \<Rightarrow> sim" where
  "integrate_loop delta_t [] s = s"
| "integrate_loop delta_t (i # is) s =
     integrate_loop delta_t is
       (s\<lparr> bodies := (bodies s)[i := integrate (bodies s ! i) (double_of_int delta_t)] \<rparr>)"

definition integrate_phase :: "int \<Rightarrow> sim \<Rightarrow> sim" where
  "integrate_phase delta_t s = integrate_loop delta_t [0 ..< length (bodies s)] s"

text \<open>One round of the loop over \<^verbatim>\<open>timestep\<close> (printing and plotting left out).\<close>

definition timestep :: "int \<Rightarrow> sim \<Rightarrow> sim" where
  "timestep delta_t s = integrate_phase delta_t (force_phase s)"

text \<open>The loop over \<^verbatim>\<open>timestep\<close> (line 164), by the number of rounds still to run.\<close>

fun time_loop :: "nat \<Rightarrow> int \<Rightarrow> sim \<Rightarrow> sim" where
  "time_loop 0 delta_t s = s"
| "time_loop (Suc k) delta_t s = time_loop k delta_t (timestep delta_t s)"

text \<open>The whole simulation: \<^verbatim>\<open>iterations\<close> rounds (none when it is not positive) from
  the initial population, with an empty call log.\<close>

definition simulate :: "int \<Rightarrow> int \<Rightarrow> body list \<Rightarrow> sim" where
  "simulate iterations delta_t bs =
     time_loop (nat iterations) delta_t \<lparr> bodies = bs, calls = [] \<rparr>"

section \<open>Command-line arguments\<close>

text \<open>
  \<^verbatim>\<open>std::stoi(arg, &pos)\<close> of the C++ standard library, as the standard specifies it
  (through \<^verbatim>\<open>strtol\<close> in base 10): leading white space is skipped, an optional sign
  is read, then the longest run of decimal digits. With no digit it throws
  \<^verbatim>\<open>std::invalid_argument\<close>; with a value outside the range of \<^verbatim>\<open>int\<close> (32 bits) it
  throws \<^verbatim>\<open>std::out_of_range\<close>; otherwise it returns the value and stores in \<^verbatim>\<open>pos\<close>
  the number of characters read.
\<close>

datatype stoi_error = Invalid_argument | Out_of_range

definition isspace :: "char \<Rightarrow> bool" where
  "isspace c = (c \<in> set [CHR '' '', CHR 0x09, CHR 0x0A, CHR 0x0B, CHR 0x0C, CHR 0x0D])"

definition isdigit :: "char \<Rightarrow> bool" where
  "isdigit c = (c \<in> set ''0123456789'')"

definition digit_value :: "char \<Rightarrow> int" where
  "digit_value c = int (of_char c) - 48"

fun dec_value :: "int \<Rightarrow> string \<Rightarrow> int" where
  "dec_value acc [] = acc"
| "dec_value acc (c # cs) = dec_value (10 * acc + digit_value c) cs"

definition stoi :: "string \<Rightarrow> stoi_error + (int \<times> nat)" where
  "stoi arg =
     (let ws = takeWhile isspace arg;
          r1 = dropWhile isspace arg;
          (neg, r2) = (case r1 of
                         c # t \<Rightarrow> if c = CHR ''-'' then (True, t)
                                  else if c = CHR ''+'' then (False, t)
                                  else (False, r1)
                       | [] \<Rightarrow> (False, r1));
          ds = takeWhile isdigit r2;
          val = (if neg then - dec_value 0 ds else dec_value 0 ds)
      in if ds = [] then Inl Invalid_argument
         else if val < INT_MIN \<or> INT_MAX < val then Inl Out_of_range
         else Inr (val, length ws + (length r1 - length r2) + length ds))"

text \<open>
  \<^verbatim>\<open>void input_verify_stoi(std::vector<std::string> vec, int *verified)\<close>. An element
  of the array \<^verbatim>\<open>verified\<close> is \<open>None\<close> while nothing has been stored in it (the
  array is a local variable of \<^verbatim>\<open>main\<close>, declared with no initialiser). The lines
  written to \<^verbatim>\<open>std::cerr\<close> are collected in order, each without its newline.
\<close>

fun input_verify_loop ::
  "string list \<Rightarrow> nat list \<Rightarrow> int option list \<times> string list \<Rightarrow> int option list \<times> string list" where
  "input_verify_loop vec [] st = st"
| "input_verify_loop vec (i # is) (verified, cerr) =
     (let arg = vec ! i
      in case stoi arg of
           Inr (val, pos) \<Rightarrow>
             input_verify_loop vec is
               (verified[i := Some val],
                if pos < length arg then cerr @ [''Trailing characters after number: '' @ arg]
                else cerr)
         | Inl Invalid_argument \<Rightarrow>
             input_verify_loop vec is (verified, cerr @ [''Invalid number: '' @ arg])
         | Inl Out_of_range \<Rightarrow>
             input_verify_loop vec is (verified, cerr @ [''Number out of range: '' @ arg]))"

definition input_verify_stoi ::
  "string list \<Rightarrow> int option list \<Rightarrow> int option list \<times> string list" where
  "input_verify_stoi vec verified = input_verify_loop vec [1 ..< length vec] (verified, [])"

text \<open>
  The argument handling of \<^verbatim>\<open>main\<close> (lines 127 to 133). Reading an element of
  \<^verbatim>\<open>input\<close> in which nothing was stored is undefined behaviour in C++ (the program
  goes on with whatever the memory holds); the model stops there with an error that
  names the index. The result is the lines on \<^verbatim>\<open>std::cerr\<close> and the triple
  \<^verbatim>\<open>(num_bodies, iterations, delta_t)\<close>. The third conditional expression has the
  type \<^verbatim>\<open>double\<close> (its branches are an \<^verbatim>\<open>int\<close> and \<^verbatim>\<open>1.0\<close>) and is converted to
  the \<^verbatim>\<open>int\<close> variable \<^verbatim>\<open>delta_t\<close>.
\<close>

datatype main_error = Uninitialised_read nat | Double_to_int_undefined | Negative_array_size

definition read_input :: "int option list \<Rightarrow> nat \<Rightarrow> main_error + int" where
  "read_input input i = (case input ! i of None \<Rightarrow> Inl (Uninitialised_read i) | Some n \<Rightarrow> Inr n)"

definition main_arguments :: "string list \<Rightarrow> string list \<times> (main_error + int \<times> int \<times> int)" where
  "main_arguments inputs =
     (let argc = length inputs;
          (input, cerr) = input_verify_stoi inputs (replicate argc None)
      in (cerr,
          case (if argc > 1 then read_input input 1 else Inr 10) of
            Inl e \<Rightarrow> Inl e
          | Inr num_bodies \<Rightarrow>
          (case (if argc > 2 then read_input input 2 else Inr 100) of
            Inl e \<Rightarrow> Inl e
          | Inr iterations \<Rightarrow>
          (case (if argc > 3 then map_sum id double_of_int (read_input input 3) else Inr (Fin 1.0)) of
            Inl e \<Rightarrow> Inl e
          | Inr d \<Rightarrow>
          (case int_of_double d of
            None \<Rightarrow> Inl Double_to_int_undefined
          | Some delta_t \<Rightarrow> Inr (num_bodies, iterations, delta_t))))))"

text \<open>
  \<^verbatim>\<open>main\<close>: the arguments, then the simulation of the population that the
  constructor of \<^verbatim>\<open>body\<close> draws at random: \<open>population k\<close> stands for the \<open>k\<close>-th
  body of the array \<^verbatim>\<open>bodies[num_bodies]\<close> as constructed. An array of negative
  size is undefined behaviour, an error of the model. Printing and plotting are left
  out.
\<close>

definition main :: "string list \<Rightarrow> (nat \<Rightarrow> body) \<Rightarrow> string list \<times> (main_error + sim)" where
  "main inputs population =
     (case main_arguments inputs of
        (cerr, Inl e) \<Rightarrow> (cerr, Inl e)
      | (cerr, Inr (num_bodies, iterations, delta_t)) \<Rightarrow>
          if num_bodies < 0 then (cerr, Inl Negative_array_size)
          else (cerr, Inr (simulate iterations delta_t (map population [0 ..< nat num_bodies]))))"

section \<open>Notions used to state the properties\<close>

text \<open>
  The vector that one call \<^verbatim>\<open>fsum( computed, affecting )\<close> adds to the force of
  \<open>computed\<close>: the products \<^verbatim>\<open>fscal * xvec\<close> and \<^verbatim>\<open>fscal * yvec\<close> of lines 85 and
  86, from the values of lines 81 to 84.
\<close>

definition contribution :: "body \<Rightarrow> body \<Rightarrow> double \<times> double" where
  "contribution computed affecting =
     (let xvec = dsub (x affecting) (x computed);
          yvec = dsub (y affecting) (y computed);
          bodyd = dsqrt (dadd (dmul xvec xvec) (dmul yvec yvec));
          fscal = ddiv (dmul (dmul C (m computed)) (m affecting))
                       (dmul (dmul bodyd bodyd) bodyd)
      in (dmul fscal xvec, dmul fscal yvec))"

text \<open>The sum, from zero and in the order of the loop over \<open>j\<close>, of the contributions
  of every other body to body \<open>i\<close> of the array \<open>bs\<close>.\<close>

definition net_force :: "body list \<Rightarrow> nat \<Rightarrow> double \<times> double" where
  "net_force bs i =
     (foldl dadd (Fin 0)
        (map (\<lambda>j. fst (contribution (bs ! i) (bs ! j))) (filter (\<lambda>j. j \<noteq> i) [0 ..< length bs])),
      foldl dadd (Fin 0)
        (map (\<lambda>j. snd (contribution (bs ! i) (bs ! j))) (filter (\<lambda>j. j \<noteq> i) [0 ..< length bs])))"

text \<open>A real number is exact when it is a binary64 number: rounding returns it.\<close>

definition exact :: "real \<Rightarrow> bool" where
  "exact r = (rnd r = Fin r)"

section \<open>Rounding\<close>

lemma expo_up_numeral:
  "expo_up (numeral k) a = (if a < 2 then 0 else expo_up (pred_numeral k) (a / 2) + 1)"
  by (simp add: numeral_eq_Suc)

lemma expo_down_numeral:
  "expo_down (numeral k) a = (if 1 \<le> a then 0 else expo_down (pred_numeral k) (a * 2) - 1)"
  by (simp add: numeral_eq_Suc)

lemmas exponent_eval = exponent_def expo_up_numeral expo_down_numeral

lemma rnd_0 [simp]: "rnd 0 = Fin 0"
  by (simp add: rnd_def)

lemma rnd_not_NaN [simp]: "rnd r \<noteq> NaN"
  by (simp add: rnd_def Let_def)

lemma rnd_uminus: "rnd (- r) = dneg (rnd r)"
  by (cases "r = 0"; cases "0 < r") (auto simp: rnd_def Let_def)





text \<open>The roundings met in the two-body scenario.\<close>

lemma rnd_1: "rnd (1) = Fin (1)"
  by (simp only: rnd_def Let_def, simp add: exponent_eval, (simp add: pow2_def)?, (simp add: round_even_def Let_def)?)

lemma rnd_10: "rnd (10) = Fin (10)"
  by (simp only: rnd_def Let_def, simp add: exponent_eval, (simp add: pow2_def)?, (simp add: round_even_def Let_def)?)

lemma rnd_100: "rnd (100) = Fin (100)"
  by (simp only: rnd_def Let_def, simp add: exponent_eval, (simp add: pow2_def)?, (simp add: round_even_def Let_def)?)

lemma rnd_1000: "rnd (1000) = Fin (1000)"
  by (simp only: rnd_def Let_def, simp add: exponent_eval, (simp add: pow2_def)?, (simp add: round_even_def Let_def)?)

lemma rnd_literal: "rnd (101 / 100) = Fin (4548635623644201 / 4503599627370496)"
  by (simp only: rnd_def Let_def, simp add: exponent_eval, (simp add: pow2_def)?, (simp add: round_even_def Let_def)?)

lemma rnd_c: "rnd (4548635623644201 / 4503599627370496) = Fin (4548635623644201 / 4503599627370496)"
  by (simp only: rnd_def Let_def, simp add: exponent_eval, (simp add: pow2_def)?, (simp add: round_even_def Let_def)?)

lemma rnd_c_div: "rnd (4548635623644201 / 4503599627370496 / 1000) = Fin (2328901439305831 / 2305843009213693952)"
  by (simp only: rnd_def Let_def, simp add: exponent_eval, (simp add: pow2_def)?, (simp add: round_even_def Let_def)?)

lemma rnd_s_mul: "rnd (2328901439305831 / 2305843009213693952 * 10) = Fin (2911126799132289 / 288230376151711744)"
  by (simp only: rnd_def Let_def, simp add: exponent_eval, (simp add: pow2_def)?, (simp add: round_even_def Let_def)?)

lemma rnd_F: "rnd (2911126799132289 / 288230376151711744) = Fin (2911126799132289 / 288230376151711744)"
  by (simp only: rnd_def Let_def, simp add: exponent_eval, (simp add: pow2_def)?, (simp add: round_even_def Let_def)?)

lemma rnd_10_minus_F: "rnd (10 - 2911126799132289 / 288230376151711744) = Fin (5623813739683565 / 562949953421312)"
  by (simp only: rnd_def Let_def, simp add: exponent_eval, (simp add: pow2_def)?, (simp add: round_even_def Let_def)?)


lemma sqrt_100: "sqrt 100 = 10"
  by (rule real_sqrt_unique) simp_all

lemma rnd_2: "rnd 2 = Fin 2"
  by (simp only: rnd_def Let_def, simp add: exponent_eval, (simp add: pow2_def)?, (simp add: round_even_def Let_def)?)
lemma rnd_4: "rnd 4 = Fin 4"
  by (simp only: rnd_def Let_def, simp add: exponent_eval, (simp add: pow2_def)?, (simp add: round_even_def Let_def)?)
lemma rnd_8: "rnd 8 = Fin 8"
  by (simp only: rnd_def Let_def, simp add: exponent_eval, (simp add: pow2_def)?, (simp add: round_even_def Let_def)?)

lemma rnd_small_integers:
  "rnd 3 = Fin 3" "rnd 6 = Fin 6" "rnd 7 = Fin 7" "rnd 12 = Fin 12" "rnd 13 = Fin 13"
  "rnd 14 = Fin 14" "rnd 15 = Fin 15"
  by (simp_all only: rnd_def Let_def, simp_all add: exponent_eval, (simp_all add: pow2_def)?, (simp_all add: round_even_def Let_def)?)

section \<open>The force loops\<close>

lemma fsum_contribution:
  "fsum a b = a\<lparr> f := dadd (f a) (fst (contribution a b)), g := dadd (g a) (snd (contribution a b)) \<rparr>"
  by (simp add: fsum_def contribution_def Let_def)

lemma contribution_force_update [simp]:
  "contribution (a\<lparr> f := p \<rparr>) b = contribution a b"
  "contribution (a\<lparr> g := q \<rparr>) b = contribution a b"
  "contribution a (b\<lparr> f := p \<rparr>) = contribution a b"
  "contribution a (b\<lparr> g := q \<rparr>) = contribution a b"
  by (simp_all add: contribution_def)

lemma length_force_inner [simp]: "length (bodies (force_inner i js s)) = length (bodies s)"
  by (induction js arbitrary: s) simp_all

lemma calls_force_inner:
  "calls (force_inner i js s) = rev (map (Pair i) (filter (\<lambda>j. j \<noteq> i) js)) @ calls s"
  by (induction js arbitrary: s) simp_all

lemma foldl_fsum:
  "foldl (\<lambda>b j. fsum b (bs ! j)) b0 js =
     b0\<lparr> f := foldl dadd (f b0) (map (\<lambda>j. fst (contribution b0 (bs ! j))) js),
         g := foldl dadd (g b0) (map (\<lambda>j. snd (contribution b0 (bs ! j))) js) \<rparr>"
  by (induction js arbitrary: b0) (simp_all add: fsum_contribution)

lemma bodies_force_inner_fold:
  "i < length (bodies s) \<Longrightarrow>
   bodies (force_inner i js s) =
     (bodies s)[i := foldl (\<lambda>b j. fsum b (bodies s ! j)) (bodies s ! i) (filter (\<lambda>j. j \<noteq> i) js)]"
proof (induction js arbitrary: s)
  case Nil
  then show ?case by simp
next
  case (Cons j js)
  show ?case
  proof (cases "j = i")
    case True
    with Cons show ?thesis by simp
  next
    case False
    let ?s = "s\<lparr> bodies := (bodies s)[i := fsum (bodies s ! i) (bodies s ! j)],
                calls := (i, j) # calls s \<rparr>"
    have len: "i < length (bodies ?s)" using Cons.prems by simp
    have self: "bodies ?s ! i = fsum (bodies s ! i) (bodies s ! j)"
      using Cons.prems by simp
    have eq: "foldl (\<lambda>b k. fsum b (bodies ?s ! k)) b0 (filter (\<lambda>j. j \<noteq> i) js)
            = foldl (\<lambda>b k. fsum b (bodies s ! k)) b0 (filter (\<lambda>j. j \<noteq> i) js)" for b0
      by (rule foldl_cong) simp_all
    have "bodies (force_inner i (j # js) s) = bodies (force_inner i js ?s)"
      using False by simp
    also have "\<dots> = (bodies ?s)[i := foldl (\<lambda>b k. fsum b (bodies ?s ! k)) (bodies ?s ! i)
                                        (filter (\<lambda>j. j \<noteq> i) js)]"
      by (rule Cons.IH [OF len])
    also have "\<dots> = (bodies ?s)[i := foldl (\<lambda>b k. fsum b (bodies s ! k))
                                        (fsum (bodies s ! i) (bodies s ! j))
                                        (filter (\<lambda>j. j \<noteq> i) js)]"
      by (simp only: eq self)
    also have "\<dots> = (bodies s)[i := foldl (\<lambda>b k. fsum b (bodies s ! k)) (bodies s ! i)
                                       (filter (\<lambda>j. j \<noteq> i) (j # js))]"
      using False by simp
    finally show ?thesis .
  qed
qed

lemma bodies_force_inner:
  assumes "i < length (bodies s)"
  shows "bodies (force_inner i js s) =
     (bodies s)[i := (bodies s ! i)
        \<lparr> f := foldl dadd (f (bodies s ! i))
                  (map (\<lambda>j. fst (contribution (bodies s ! i) (bodies s ! j))) (filter (\<lambda>j. j \<noteq> i) js)),
          g := foldl dadd (g (bodies s ! i))
                  (map (\<lambda>j. snd (contribution (bodies s ! i) (bodies s ! j))) (filter (\<lambda>j. j \<noteq> i) js)) \<rparr>]"
  by (simp only: bodies_force_inner_fold [OF assms] foldl_fsum)


lemma net_force_update:
  "i < length bs \<Longrightarrow> net_force (bs[i := (bs ! i)\<lparr> f := p, g := q \<rparr>]) k = net_force bs k"
proof -
  assume i: "i < length bs"
  let ?bs = "bs[i := (bs ! i)\<lparr> f := p, g := q \<rparr>]"
  have "contribution (?bs ! k) (?bs ! j) = contribution (bs ! k) (bs ! j)" for j
    using i by (cases "k = i"; cases "j = i") simp_all
  then show ?thesis
    by (simp add: net_force_def)
qed

lemma force_outer_round_bodies:
  assumes "i < length (bodies s)"
  shows "bodies (force_inner i [0 ..< length (bodies s)]
                  (s\<lparr> bodies := (bodies s)[i := (bodies s ! i)\<lparr> f := Fin 0, g := Fin 0 \<rparr>] \<rparr>))
         = (bodies s)[i := (bodies s ! i)\<lparr> f := fst (net_force (bodies s) i),
                                           g := snd (net_force (bodies s) i) \<rparr>]"
proof -
  let ?bs = "(bodies s)[i := (bodies s ! i)\<lparr> f := Fin 0, g := Fin 0 \<rparr>]"
  let ?s = "s\<lparr> bodies := ?bs \<rparr>"
  have len: "i < length (bodies ?s)" using assms by simp
  have c: "contribution a (?bs ! j) = contribution a (bodies s ! j)" for a j
    using assms by (cases "j = i") simp_all
  show ?thesis
    using assms by (simp add: bodies_force_inner [OF len] c net_force_def)
qed

lemma force_outer_Cons:
  "i < length (bodies s) \<Longrightarrow> force_outer (i # is) s =
     force_outer is (force_inner i [0 ..< length (bodies s)]
                  (s\<lparr> bodies := (bodies s)[i := (bodies s ! i)\<lparr> f := Fin 0, g := Fin 0 \<rparr>] \<rparr>))"
  by (simp add: Let_def)

lemma bodies_force_outer:
  "set is \<subseteq> {..< length (bodies s)} \<Longrightarrow>
   length (bodies (force_outer is s)) = length (bodies s) \<and>
   (\<forall>k < length (bodies s). bodies (force_outer is s) ! k =
      (if k \<in> set is
       then (bodies s ! k)\<lparr> f := fst (net_force (bodies s) k), g := snd (net_force (bodies s) k) \<rparr>
       else bodies s ! k))"
proof (induction "is" arbitrary: s)
  case Nil
  then show ?case by simp
next
  case (Cons i "is")
  let ?s = "force_inner i [0 ..< length (bodies s)]
                  (s\<lparr> bodies := (bodies s)[i := (bodies s ! i)\<lparr> f := Fin 0, g := Fin 0 \<rparr>] \<rparr>)"
  have i: "i < length (bodies s)" using Cons.prems by simp
  have b: "bodies ?s = (bodies s)[i := (bodies s ! i)\<lparr> f := fst (net_force (bodies s) i),
                                           g := snd (net_force (bodies s) i) \<rparr>]"
    by (rule force_outer_round_bodies [OF i])
  have len: "length (bodies ?s) = length (bodies s)" by (simp add: b)
  have sub: "set is \<subseteq> {..< length (bodies ?s)}" using Cons.prems len by simp
  have nf: "net_force (bodies ?s) k = net_force (bodies s) k" for k
    by (simp only: b net_force_update [OF i])
  note IH = Cons.IH [OF sub, unfolded len nf]
  show ?case
  proof (intro conjI allI impI)
    show "length (bodies (force_outer (i # is) s)) = length (bodies s)"
      using IH by (simp only: force_outer_Cons [OF i])
  next
    fix k assume k: "k < length (bodies s)"
    have "bodies (force_outer (i # is) s) ! k =
          (if k \<in> set is
           then (bodies ?s ! k)\<lparr> f := fst (net_force (bodies s) k), g := snd (net_force (bodies s) k) \<rparr>
           else bodies ?s ! k)"
      using IH k by (simp only: force_outer_Cons [OF i])
    also have "\<dots> = (if k \<in> set (i # is)
       then (bodies s ! k)\<lparr> f := fst (net_force (bodies s) k), g := snd (net_force (bodies s) k) \<rparr>
       else bodies s ! k)"
      using i by (cases "k = i") (simp_all add: b)
    finally show "bodies (force_outer (i # is) s) ! k =
      (if k \<in> set (i # is)
       then (bodies s ! k)\<lparr> f := fst (net_force (bodies s) k), g := snd (net_force (bodies s) k) \<rparr>
       else bodies s ! k)" .
  qed
qed

lemma bodies_force_phase:
  "bodies (force_phase s) =
     map (\<lambda>k. (bodies s ! k)\<lparr> f := fst (net_force (bodies s) k), g := snd (net_force (bodies s) k) \<rparr>)
         [0 ..< length (bodies s)]"
proof -
  have "set [0 ..< length (bodies s)] \<subseteq> {..< length (bodies s)}" by auto
  from bodies_force_outer [OF this] show ?thesis
    by (intro nth_equalityI) (simp_all add: force_phase_def)
qed

lemma length_force_outer [simp]: "length (bodies (force_outer is s)) = length (bodies s)"
  by (induction "is" arbitrary: s) (simp_all add: Let_def)

lemma calls_force_outer:
  "calls (force_outer is s) =
     rev (concat (map (\<lambda>i. map (Pair i) (filter (\<lambda>j. j \<noteq> i) [0 ..< length (bodies s)])) is)) @ calls s"
  by (induction "is" arbitrary: s) (simp_all add: Let_def calls_force_inner)

lemma length_integrate_loop [simp]: "length (bodies (integrate_loop delta_t is s)) = length (bodies s)"
  by (induction "is" arbitrary: s) simp_all

lemma calls_integrate_loop [simp]: "calls (integrate_loop delta_t is s) = calls s"
  by (induction "is" arbitrary: s) simp_all

lemma bodies_integrate_loop:
  "distinct is \<Longrightarrow> k < length (bodies s) \<Longrightarrow>
   bodies (integrate_loop delta_t is s) ! k =
     (if k \<in> set is then integrate (bodies s ! k) (double_of_int delta_t) else bodies s ! k)"
proof (induction "is" arbitrary: s)
  case Nil
  then show ?case by simp
next
  case (Cons i "is")
  let ?s = "s\<lparr> bodies := (bodies s)[i := integrate (bodies s ! i) (double_of_int delta_t)] \<rparr>"
  have d: "distinct is" and ni: "i \<notin> set is" using Cons.prems by simp_all
  have k: "k < length (bodies ?s)" using Cons.prems by simp
  show ?case
    using Cons.IH [OF d k] ni Cons.prems(2) by (cases "k = i") auto
qed

lemma bodies_integrate_phase:
  "bodies (integrate_phase delta_t s) = map (\<lambda>b. integrate b (double_of_int delta_t)) (bodies s)"
  by (intro nth_equalityI) (simp_all add: integrate_phase_def bodies_integrate_loop)

lemma calls_integrate_phase [simp]: "calls (integrate_phase delta_t s) = calls s"
  by (simp add: integrate_phase_def)

lemma concat_map_if:
  "concat (map (\<lambda>j. if P j then [h j] else []) xs) = map h (filter P xs)"
  by (induction xs) simp_all

lemma length_filter_neq_upt: "i < n \<Longrightarrow> length (filter (\<lambda>j. j \<noteq> i) [0 ..< n]) = n - 1"
proof -
  assume i: "i < n"
  have "{j. j \<noteq> i} \<inter> set [0 ..< n] = {0 ..< n} - {i}" by auto
  then have "length (filter (\<lambda>j. j \<noteq> i) [0 ..< n]) = card ({0 ..< n} - {i})"
    by (simp add: distinct_length_filter)
  also have "\<dots> = n - 1" using i by simp
  finally show ?thesis .
qed

lemma length_ordered_pairs:
  "length (concat (map (\<lambda>i. map (Pair i) (filter (\<lambda>j. j \<noteq> i) [0 ..< n])) [0 ..< n])) = n * (n - 1)"
proof -
  have eq: "map (\<lambda>i. length (filter (\<lambda>j. j \<noteq> i) [0 ..< n])) [0 ..< n] = map (\<lambda>i. n - 1) [0 ..< n]"
    by (rule map_cong) (simp_all add: length_filter_neq_upt)
  have "length (concat (map (\<lambda>i. map (Pair i) (filter (\<lambda>j. j \<noteq> i) [0 ..< n])) [0 ..< n]))
        = sum_list (map (\<lambda>i. length (filter (\<lambda>j. j \<noteq> i) [0 ..< n])) [0 ..< n])"
    by (simp add: length_concat comp_def)
  also have "\<dots> = sum_list (map (\<lambda>i. n - 1) [0 ..< n])"
    by (simp only: eq)
  also have "\<dots> = n * (n - 1)"
    by (simp add: sum_list_triv)
  finally show ?thesis .
qed

lemma distinct_indexed_pairs:
  "distinct is \<Longrightarrow> (\<And>i. distinct (h i)) \<Longrightarrow> distinct (concat (map (\<lambda>i. map (Pair i) (h i)) is))"
  by (induction "is") (auto simp: distinct_map inj_on_def)

lemma distinct_ordered_pairs:
  "distinct (concat (map (\<lambda>i. map (Pair i) (filter (\<lambda>j. j \<noteq> i) [0 ..< n])) [0 ..< n]))"
  by (rule distinct_indexed_pairs) simp_all

lemma set_ordered_pairs:
  "set (concat (map (\<lambda>i. map (Pair i) (filter (\<lambda>j. j \<noteq> i) [0 ..< n])) [0 ..< n]))
   = {(i, j). i < n \<and> j < n \<and> i \<noteq> j}"
  by auto

lemma map_m_timestep: "map m (bodies (timestep delta_t s)) = map m (bodies s)"
proof -
  have "map m (bodies (timestep delta_t s)) = map (\<lambda>k. m (bodies s ! k)) [0 ..< length (bodies s)]"
    by (simp add: timestep_def bodies_integrate_phase bodies_force_phase integrate_def comp_def)
  also have "\<dots> = map m (bodies s)"
    by (intro nth_equalityI) simp_all
  finally show ?thesis .
qed

lemma map_m_time_loop: "map m (bodies (time_loop k delta_t s)) = map m (bodies s)"
  by (induction k arbitrary: s) (simp_all add: map_m_timestep)

lemma time_loop_Suc: "time_loop (Suc k) delta_t s = timestep delta_t (time_loop k delta_t s)"
  by (induction k arbitrary: s) simp_all

lemma single_force_phase:
  "bodies s = [b] \<Longrightarrow> bodies (force_phase s) = [b\<lparr> f := Fin 0, g := Fin 0 \<rparr>] \<and> calls (force_phase s) = calls s"
  by (simp add: bodies_force_phase net_force_def force_phase_def calls_force_outer)

section \<open>The force between two bodies\<close>



lemma contribution_two_body:
  assumes "rnd (101 / 100) = Fin c" and "rnd c = Fin c" and "rnd (c / 1000) = Fin s" and "rnd (s * 10) = Fin F"
    and "x a = Fin 0" and "y a = Fin 0" and "m a = Fin 1"
    and "x b = Fin 10" and "y b = Fin 0" and "m b = Fin 1"
  shows "contribution a b = (Fin F, Fin 0)" and "contribution b a = (Fin (- F), Fin 0)"
  using assms
  by (simp_all add: contribution_def C_def dsub_def sqrt_100 rnd_1 rnd_10 rnd_100 rnd_1000 rnd_uminus)

lemma two_body_generic:
  assumes c: "rnd (101 / 100) = Fin c" "rnd c = Fin c" "rnd (c / 1000) = Fin s" "rnd (s * 10) = Fin F"
    and F: "rnd F = Fin F" "rnd (10 - F) = Fin X1"
  shows "bodies (force_phase \<lparr> bodies = [\<lparr> m = Fin 1, x = Fin 0, y = Fin 0, v = Fin 0, w = Fin 0, f = Fin 0, g = Fin 0 \<rparr>,
            \<lparr> m = Fin 1, x = Fin 10, y = Fin 0, v = Fin 0, w = Fin 0, f = Fin 0, g = Fin 0 \<rparr>], calls = [] \<rparr>)
      = [\<lparr> m = Fin 1, x = Fin 0, y = Fin 0, v = Fin 0, w = Fin 0, f = Fin F, g = Fin 0 \<rparr>,
         \<lparr> m = Fin 1, x = Fin 10, y = Fin 0, v = Fin 0, w = Fin 0, f = Fin (- F), g = Fin 0 \<rparr>]"
    and "bodies (simulate 1 1 [\<lparr> m = Fin 1, x = Fin 0, y = Fin 0, v = Fin 0, w = Fin 0, f = Fin 0, g = Fin 0 \<rparr>,
            \<lparr> m = Fin 1, x = Fin 10, y = Fin 0, v = Fin 0, w = Fin 0, f = Fin 0, g = Fin 0 \<rparr>])
      = [\<lparr> m = Fin 1, x = Fin F, y = Fin 0, v = Fin F, w = Fin 0, f = Fin F, g = Fin 0 \<rparr>,
         \<lparr> m = Fin 1, x = Fin X1, y = Fin 0, v = Fin (- F), w = Fin 0, f = Fin (- F), g = Fin 0 \<rparr>]"
proof -
  let ?a = "\<lparr> m = Fin 1, x = Fin 0, y = Fin 0, v = Fin 0, w = Fin 0, f = Fin 0, g = Fin 0 \<rparr>"
  let ?b = "\<lparr> m = Fin 1, x = Fin 10, y = Fin 0, v = Fin 0, w = Fin 0, f = Fin 0, g = Fin 0 \<rparr>"
  have ab: "contribution ?a ?b = (Fin F, Fin 0)" and ba: "contribution ?b ?a = (Fin (- F), Fin 0)"
    by (rule contribution_two_body [OF c]; simp)+
  have mF: "rnd (- F) = Fin (- F)"
    by (simp add: rnd_uminus F)
  show fp: "bodies (force_phase \<lparr> bodies = [?a, ?b], calls = [] \<rparr>)
      = [\<lparr> m = Fin 1, x = Fin 0, y = Fin 0, v = Fin 0, w = Fin 0, f = Fin F, g = Fin 0 \<rparr>,
         \<lparr> m = Fin 1, x = Fin 10, y = Fin 0, v = Fin 0, w = Fin 0, f = Fin (- F), g = Fin 0 \<rparr>]"
    by (simp add: bodies_force_phase net_force_def upt_rec ab ba F mF)
  show "bodies (simulate 1 1 [?a, ?b])
      = [\<lparr> m = Fin 1, x = Fin F, y = Fin 0, v = Fin F, w = Fin 0, f = Fin F, g = Fin 0 \<rparr>,
         \<lparr> m = Fin 1, x = Fin X1, y = Fin 0, v = Fin (- F), w = Fin 0, f = Fin (- F), g = Fin 0 \<rparr>]"
    by (simp add: simulate_def timestep_def bodies_integrate_phase fp integrate_def
        double_of_int_def F mF rnd_uminus)
qed

lemmas two_body_roundings = rnd_literal rnd_c rnd_c_div rnd_s_mul rnd_F rnd_10_minus_F



section \<open>The integrator\<close>

text \<open>
  Claim C3. One call of \<^verbatim>\<open>integrate\<close> with the time step \<open>dt\<close> returns the velocity
  \<open>v + dt * f / m\<close> and the position \<open>p + dt * v'\<close> in each coordinate, where \<open>v'\<close> is
  the velocity that the same call has just computed, not the velocity it received, and
  \<open>+\<close>, \<open>*\<close> and \<open>/\<close> are the operations of binary64 arithmetic, evaluated in the order
  of the source. For a finite state and a mass that is not zero, when no operation
  rounds, these are the real numbers \<open>v + dt * f / m\<close> and \<open>p + dt * (v + dt * f / m)\<close>.
\<close>

theorem integrate_euler:
  "v (integrate b dt) = dadd (v b) (ddiv (dmul dt (f b)) (m b))
   \<and> w (integrate b dt) = dadd (w b) (ddiv (dmul dt (g b)) (m b))
   \<and> x (integrate b dt) = dadd (x b) (dmul dt (v (integrate b dt)))
   \<and> y (integrate b dt) = dadd (y b) (dmul dt (w (integrate b dt)))
   \<and> (m b = Fin mass \<and> mass \<noteq> 0 \<and> dt = Fin h
        \<and> v b = Fin vx \<and> f b = Fin fx \<and> x b = Fin px
        \<and> exact (h * fx) \<and> exact (h * fx / mass) \<and> exact (vx + h * fx / mass)
        \<and> exact (h * (vx + h * fx / mass)) \<and> exact (px + h * (vx + h * fx / mass))
      \<longrightarrow> v (integrate b dt) = Fin (vx + h * fx / mass)
        \<and> x (integrate b dt) = Fin (px + h * (vx + h * fx / mass)))
   \<and> (m b = Fin mass \<and> mass \<noteq> 0 \<and> dt = Fin h
        \<and> w b = Fin vy \<and> g b = Fin fy \<and> y b = Fin py
        \<and> exact (h * fy) \<and> exact (h * fy / mass) \<and> exact (vy + h * fy / mass)
        \<and> exact (h * (vy + h * fy / mass)) \<and> exact (py + h * (vy + h * fy / mass))
      \<longrightarrow> w (integrate b dt) = Fin (vy + h * fy / mass)
        \<and> y (integrate b dt) = Fin (py + h * (vy + h * fy / mass)))"
  by (simp add: integrate_def Let_def exact_def)

theorem integrate_euler_witness:
  "v (integrate \<lparr> m = Fin 2, x = Fin 1, y = Fin 1, v = Fin 3, w = Fin 0, f = Fin 4, g = Fin 6 \<rparr> (Fin 2))
     = Fin 7
   \<and> x (integrate \<lparr> m = Fin 2, x = Fin 1, y = Fin 1, v = Fin 3, w = Fin 0, f = Fin 4, g = Fin 6 \<rparr> (Fin 2))
     = Fin 15
   \<and> w (integrate \<lparr> m = Fin 2, x = Fin 1, y = Fin 1, v = Fin 3, w = Fin 0, f = Fin 4, g = Fin 6 \<rparr> (Fin 2))
     = Fin 6
   \<and> y (integrate \<lparr> m = Fin 2, x = Fin 1, y = Fin 1, v = Fin 3, w = Fin 0, f = Fin 4, g = Fin 6 \<rparr> (Fin 2))
     = Fin 13"
  using integrate_euler [of
      "\<lparr> m = Fin 2, x = Fin 1, y = Fin 1, v = Fin 3, w = Fin 0, f = Fin 4, g = Fin 6 \<rparr>"
      "Fin 2" 2 2 3 4 1 0 6 1]
  by (simp add: exact_def rnd_small_integers rnd_1 rnd_2 rnd_4 rnd_8)

section \<open>What each operation leaves unchanged\<close>

text \<open>
  Claim C10. A call of \<^verbatim>\<open>fsum\<close> returns its first argument with only the force
  changed: mass, position and velocity are those it received. A call of
  \<^verbatim>\<open>integrate\<close> changes only velocity and position: mass and force are those it
  received. So after any number of rounds of the simulation the array holds the same
  number of bodies with the masses they started with.
\<close>

theorem mass_and_frame_preserved:
  "m (fsum a b) = m a \<and> x (fsum a b) = x a \<and> y (fsum a b) = y a
   \<and> v (fsum a b) = v a \<and> w (fsum a b) = w a
   \<and> m (integrate a dt) = m a \<and> f (integrate a dt) = f a \<and> g (integrate a dt) = g a
   \<and> map m (bodies (simulate iterations delta_t bs)) = map m bs"
  by (simp add: fsum_def integrate_def Let_def simulate_def map_m_time_loop)

section \<open>The number of force evaluations\<close>

lemma force_inner_as_fold:
  "bodies (force_inner i js s) =
     foldl (\<lambda>bs (i, j). bs[i := fsum (bs ! i) (bs ! j)]) (bodies s)
       (map (Pair i) (filter (\<lambda>j. j \<noteq> i) js))"
  by (induction js arbitrary: s) simp_all

lemma fold_row:
  assumes "i < length bs"
  shows "foldl (\<lambda>bs (i, j). bs[i := fsum (bs ! i) (bs ! j)]) bs
           (map (Pair i) (filter (\<lambda>j. j \<noteq> i) js)) =
     bs[i := (bs ! i)
        \<lparr> f := foldl dadd (f (bs ! i))
                  (map (\<lambda>j. fst (contribution (bs ! i) (bs ! j))) (filter (\<lambda>j. j \<noteq> i) js)),
          g := foldl dadd (g (bs ! i))
                  (map (\<lambda>j. snd (contribution (bs ! i) (bs ! j))) (filter (\<lambda>j. j \<noteq> i) js)) \<rparr>]"
  using bodies_force_inner [of i "\<lparr> bodies = bs, calls = [] \<rparr>" js] assms
  by (simp add: force_inner_as_fold)

lemma fold_rows:
  "set is \<subseteq> {..< length bs} \<Longrightarrow> distinct is \<Longrightarrow>
   length (foldl (\<lambda>bs (i, j). bs[i := fsum (bs ! i) (bs ! j)]) bs
            (concat (map (\<lambda>i. map (Pair i) (filter (\<lambda>j. j \<noteq> i) [0 ..< length bs])) is)))
     = length bs \<and>
   (\<forall>k < length bs.
      foldl (\<lambda>bs (i, j). bs[i := fsum (bs ! i) (bs ! j)]) bs
        (concat (map (\<lambda>i. map (Pair i) (filter (\<lambda>j. j \<noteq> i) [0 ..< length bs])) is)) ! k =
      (if k \<in> set is
       then (bs ! k)
         \<lparr> f := foldl dadd (f (bs ! k))
                 (map (\<lambda>j. fst (contribution (bs ! k) (bs ! j)))
                      (filter (\<lambda>j. j \<noteq> k) [0 ..< length bs])),
           g := foldl dadd (g (bs ! k))
                 (map (\<lambda>j. snd (contribution (bs ! k) (bs ! j)))
                      (filter (\<lambda>j. j \<noteq> k) [0 ..< length bs])) \<rparr>
       else bs ! k))"
proof (induction "is" arbitrary: bs)
  case Nil
  then show ?case by simp
next
  case (Cons i "is")
  let ?n = "length bs"
  let ?F = "\<lambda>bs k. foldl dadd (f (bs ! k))
                 (map (\<lambda>j. fst (contribution (bs ! k) (bs ! j))) (filter (\<lambda>j. j \<noteq> k) [0 ..< ?n]))"
  let ?G = "\<lambda>bs k. foldl dadd (g (bs ! k))
                 (map (\<lambda>j. snd (contribution (bs ! k) (bs ! j))) (filter (\<lambda>j. j \<noteq> k) [0 ..< ?n]))"
  let ?bs = "bs[i := (bs ! i)\<lparr> f := ?F bs i, g := ?G bs i \<rparr>]"
  have i: "i < ?n" and ni: "i \<notin> set is" and d: "distinct is"
    using Cons.prems by simp_all
  have len: "length ?bs = ?n" by simp
  have sub: "set is \<subseteq> {..< length ?bs}" using Cons.prems by simp
  have row: "foldl (\<lambda>bs (i, j). bs[i := fsum (bs ! i) (bs ! j)]) bs
           (map (Pair i) (filter (\<lambda>j. j \<noteq> i) [0 ..< ?n])) = ?bs"
    by (rule fold_row [OF i])
  have c: "contribution a (?bs ! j) = contribution a (bs ! j)" for a j
    using i by (cases "j = i") simp_all
  have FG: "?F ?bs k = ?F bs k" "?G ?bs k = ?G bs k" if "k \<noteq> i" for k
    using that i by (simp_all add: c)
  note IH = Cons.IH [OF sub d, unfolded len]
  have split: "foldl (\<lambda>bs (i, j). bs[i := fsum (bs ! i) (bs ! j)]) bs
        (concat (map (\<lambda>i. map (Pair i) (filter (\<lambda>j. j \<noteq> i) [0 ..< ?n])) (i # is)))
      = foldl (\<lambda>bs (i, j). bs[i := fsum (bs ! i) (bs ! j)]) ?bs
        (concat (map (\<lambda>i. map (Pair i) (filter (\<lambda>j. j \<noteq> i) [0 ..< ?n])) is))"
    by (simp only: list.map concat.simps foldl_append row)
  show ?case
  proof (intro conjI allI impI)
    show "length (foldl (\<lambda>bs (i, j). bs[i := fsum (bs ! i) (bs ! j)]) bs
        (concat (map (\<lambda>i. map (Pair i) (filter (\<lambda>j. j \<noteq> i) [0 ..< ?n])) (i # is)))) = ?n"
      using IH by (simp only: split)
  next
    fix k assume k: "k < ?n"
    show "foldl (\<lambda>bs (i, j). bs[i := fsum (bs ! i) (bs ! j)]) bs
        (concat (map (\<lambda>i. map (Pair i) (filter (\<lambda>j. j \<noteq> i) [0 ..< ?n])) (i # is))) ! k =
      (if k \<in> set (i # is) then (bs ! k)\<lparr> f := ?F bs k, g := ?G bs k \<rparr> else bs ! k)"
    proof (cases "k = i")
      case True
      then show ?thesis
        using IH k ni i by (simp only: split) simp
    next
      case False
      then show ?thesis
        using IH k i FG [OF False] by (simp only: split) simp
    qed
  qed
qed

lemma force_phase_as_fold:
  "bodies (force_phase s) =
     foldl (\<lambda>bs (i, j). bs[i := fsum (bs ! i) (bs ! j)])
       (map (\<lambda>b. b\<lparr> f := Fin 0, g := Fin 0 \<rparr>) (bodies s))
       (concat (map (\<lambda>i. map (Pair i) (filter (\<lambda>j. j \<noteq> i) [0 ..< length (bodies s)]))
                    [0 ..< length (bodies s)]))"
proof -
  let ?n = "length (bodies s)"
  let ?bs = "map (\<lambda>b. b\<lparr> f := Fin 0, g := Fin 0 \<rparr>) (bodies s)"
  have len: "length ?bs = ?n" by simp
  have sub: "set [0 ..< ?n] \<subseteq> {..< length ?bs}" by auto
  note R = fold_rows [OF sub distinct_upt, unfolded len]
  show ?thesis
  proof (rule nth_equalityI)
    show "length (bodies (force_phase s)) = length (foldl (\<lambda>bs (i, j). bs[i := fsum (bs ! i) (bs ! j)]) ?bs
       (concat (map (\<lambda>i. map (Pair i) (filter (\<lambda>j. j \<noteq> i) [0 ..< ?n])) [0 ..< ?n])))"
      using R by (simp add: force_phase_def)
  next
    fix k assume "k < length (bodies (force_phase s))"
    then have k: "k < ?n" by (simp add: force_phase_def)
    have c: "contribution a (?bs ! j) = contribution a (bodies s ! j)"
      if "j < ?n" for a j
      using that by simp
    have m: "map (\<lambda>j. h (contribution (?bs ! k) (?bs ! j))) (filter (\<lambda>j. j \<noteq> k) [0 ..< ?n])
           = map (\<lambda>j. h (contribution (bodies s ! k) (bodies s ! j))) (filter (\<lambda>j. j \<noteq> k) [0 ..< ?n])"
      for h :: "double \<times> double \<Rightarrow> double"
      using k by (intro map_cong refl) (simp add: c)
    have "foldl (\<lambda>bs (i, j). bs[i := fsum (bs ! i) (bs ! j)]) ?bs
       (concat (map (\<lambda>i. map (Pair i) (filter (\<lambda>j. j \<noteq> i) [0 ..< ?n])) [0 ..< ?n])) ! k
      = (?bs ! k)\<lparr> f := foldl dadd (f (?bs ! k))
                 (map (\<lambda>j. fst (contribution (?bs ! k) (?bs ! j))) (filter (\<lambda>j. j \<noteq> k) [0 ..< ?n])),
           g := foldl dadd (g (?bs ! k))
                 (map (\<lambda>j. snd (contribution (?bs ! k) (?bs ! j))) (filter (\<lambda>j. j \<noteq> k) [0 ..< ?n])) \<rparr>"
      using R k by simp
    also have "\<dots> = (bodies s ! k)\<lparr> f := fst (net_force (bodies s) k), g := snd (net_force (bodies s) k) \<rparr>"
      unfolding m using k by (simp add: net_force_def)
    also have "\<dots> = bodies (force_phase s) ! k"
      using k by (simp add: bodies_force_phase)
    finally show "bodies (force_phase s) ! k =
      foldl (\<lambda>bs (i, j). bs[i := fsum (bs ! i) (bs ! j)]) ?bs
       (concat (map (\<lambda>i. map (Pair i) (filter (\<lambda>j. j \<noteq> i) [0 ..< ?n])) [0 ..< ?n])) ! k"
      by simp
  qed
qed

text \<open>
  Claim C5. One round of the simulation on \<open>N\<close> bodies evaluates \<^verbatim>\<open>fsum\<close> once for
  each ordered pair \<open>(i, j)\<close> of different indices below \<open>N\<close>, in the order of the two
  loops, and no other time: the bodies after the force loops are the bodies with their
  forces reset to which \<^verbatim>\<open>bodies[i] = fsum( bodies[i], bodies[j] )\<close> has been applied for
  these pairs in turn, the rest of the round applies \<^verbatim>\<open>integrate\<close> to each body, and
  the log of the calls holds the same pairs. They are \<open>N * (N - 1)\<close> distinct pairs, so
  each unordered pair is evaluated twice, once from each side.
\<close>

theorem timestep_pairwise_evaluations:
  "bodies (force_phase s) =
     foldl (\<lambda>bs (i, j). bs[i := fsum (bs ! i) (bs ! j)])
       (map (\<lambda>b. b\<lparr> f := Fin 0, g := Fin 0 \<rparr>) (bodies s))
       [(i, j). i \<leftarrow> [0 ..< length (bodies s)], j \<leftarrow> [0 ..< length (bodies s)], j \<noteq> i]
   \<and> bodies (timestep delta_t s) =
       map (\<lambda>b. integrate b (double_of_int delta_t)) (bodies (force_phase s))
   \<and> calls (timestep delta_t s) =
       rev [(i, j). i \<leftarrow> [0 ..< length (bodies s)], j \<leftarrow> [0 ..< length (bodies s)], j \<noteq> i] @ calls s
   \<and> length [(i, j). i \<leftarrow> [0 ..< length (bodies s)], j \<leftarrow> [0 ..< length (bodies s)], j \<noteq> i]
       = length (bodies s) * (length (bodies s) - 1)
   \<and> distinct [(i, j). i \<leftarrow> [0 ..< length (bodies s)], j \<leftarrow> [0 ..< length (bodies s)], j \<noteq> i]
   \<and> set [(i, j). i \<leftarrow> [0 ..< length (bodies s)], j \<leftarrow> [0 ..< length (bodies s)], j \<noteq> i]
       = {(i, j). i < length (bodies s) \<and> j < length (bodies s) \<and> i \<noteq> j}"
  unfolding concat_map_if
  using length_ordered_pairs [of "length (bodies s)"] distinct_ordered_pairs [of "length (bodies s)"]
    set_ordered_pairs [of "length (bodies s)"] force_phase_as_fold [of s]
  by (simp add: timestep_def bodies_integrate_phase force_phase_def calls_force_outer)

section \<open>The two-body scenario\<close>

text \<open>
  Claim C1, as the program behaves. Two bodies of mass 1 at \<open>(0, 0)\<close> and \<open>(10, 0)\<close>,
  at rest, with \<open>C = 1.01\<close> and \<^verbatim>\<open>delta_t = 1\<close>. The force on body 0 is \<open>(F, 0)\<close>, toward
  body 1, and the force on body 1 is the opposite, where \<open>F\<close> is the binary64 number
  \<open>2911126799132289 / 2 ^ 58\<close>, within \<open>1 / 10 ^ 17\<close> of 0.0101. After one round body 0
  has the velocity \<open>(F, 0)\<close> and, since the position is advanced with the velocity just
  computed, the position \<open>(F, 0)\<close>; body 1 has the velocity \<open>(-F, 0)\<close> and the position
  \<open>(5623813739683565 / 2 ^ 49, 0)\<close>, within \<open>1 / 10 ^ 15\<close> of 9.9899.
\<close>

theorem two_body_one_step:
  "bodies (force_phase \<lparr> bodies =
       [\<lparr> m = Fin 1, x = Fin 0, y = Fin 0, v = Fin 0, w = Fin 0, f = Fin 0, g = Fin 0 \<rparr>,
        \<lparr> m = Fin 1, x = Fin 10, y = Fin 0, v = Fin 0, w = Fin 0, f = Fin 0, g = Fin 0 \<rparr>],
       calls = [] \<rparr>)
   = [\<lparr> m = Fin 1, x = Fin 0, y = Fin 0, v = Fin 0, w = Fin 0,
        f = Fin (2911126799132289 / 288230376151711744), g = Fin 0 \<rparr>,
      \<lparr> m = Fin 1, x = Fin 10, y = Fin 0, v = Fin 0, w = Fin 0,
        f = Fin (- (2911126799132289 / 288230376151711744)), g = Fin 0 \<rparr>]
   \<and> bodies (simulate 1 1
       [\<lparr> m = Fin 1, x = Fin 0, y = Fin 0, v = Fin 0, w = Fin 0, f = Fin 0, g = Fin 0 \<rparr>,
        \<lparr> m = Fin 1, x = Fin 10, y = Fin 0, v = Fin 0, w = Fin 0, f = Fin 0, g = Fin 0 \<rparr>])
   = [\<lparr> m = Fin 1, x = Fin (2911126799132289 / 288230376151711744), y = Fin 0, v = Fin (2911126799132289 / 288230376151711744), w = Fin 0,
        f = Fin (2911126799132289 / 288230376151711744), g = Fin 0 \<rparr>,
      \<lparr> m = Fin 1, x = Fin (5623813739683565 / 562949953421312), y = Fin 0, v = Fin (- (2911126799132289 / 288230376151711744)), w = Fin 0,
        f = Fin (- (2911126799132289 / 288230376151711744)), g = Fin 0 \<rparr>]
   \<and> \<bar>2911126799132289 / 288230376151711744 - 0.0101\<bar> < (1 / 10 ^ 17 :: real)
   \<and> \<bar>5623813739683565 / 562949953421312 - 9.9899\<bar> < (1 / 10 ^ 15 :: real)"
  using two_body_generic [OF two_body_roundings] by simp

text \<open>The position of body 0 after the round is not \<open>(0, 0)\<close>.\<close>

theorem two_body_position_moves:
  "x (bodies (simulate 1 1
       [\<lparr> m = Fin 1, x = Fin 0, y = Fin 0, v = Fin 0, w = Fin 0, f = Fin 0, g = Fin 0 \<rparr>,
        \<lparr> m = Fin 1, x = Fin 10, y = Fin 0, v = Fin 0, w = Fin 0, f = Fin 0, g = Fin 0 \<rparr>]) ! 0)
   \<noteq> Fin 0"
  using two_body_generic(2) [OF two_body_roundings] by simp

section \<open>A single body\<close>

lemma length_timestep [simp]: "length (bodies (timestep delta_t s)) = length (bodies s)"
  by (simp add: timestep_def bodies_integrate_phase force_phase_def)

lemma single_calls_timestep: "length (bodies s) = 1 \<Longrightarrow> calls (timestep delta_t s) = calls s"
  by (simp add: timestep_def force_phase_def calls_force_outer)

lemma single_calls_time_loop: "length (bodies s) = 1 \<Longrightarrow> calls (time_loop k delta_t s) = calls s"
  by (induction k arbitrary: s) (simp_all add: single_calls_timestep)

lemma single_timestep:
  assumes "bodies s = [b]" and "m b = Fin mass" and "mass \<noteq> 0"
    and "v b = Fin vx" and "exact vx" and "w b = Fin vy" and "exact vy"
  shows "bodies (timestep delta_t s) =
     [b\<lparr> x := dadd (x b) (dmul (double_of_int delta_t) (v b)),
         y := dadd (y b) (dmul (double_of_int delta_t) (w b)),
         f := Fin 0, g := Fin 0 \<rparr>]"
proof -
  have vx: "rnd vx = Fin vx" and vy: "rnd vy = Fin vy"
    using assms(5,7) by (simp_all add: exact_def)
  have "b\<lparr> v := Fin vx, w := Fin vy \<rparr> = b"
    using assms(4,6) by simp
  then show ?thesis
    using assms(1-4,6)
    by (simp add: timestep_def bodies_integrate_phase single_force_phase integrate_def
        double_of_int_def vx vy)
qed

lemma single_time_loop:
  assumes "m b = Fin mass" and "mass \<noteq> 0"
    and "v b = Fin vx" and "exact vx" and "w b = Fin vy" and "exact vy"
  shows "bodies (time_loop (Suc k) delta_t \<lparr> bodies = [b], calls = cs \<rparr>) =
     [b\<lparr> x := ((\<lambda>p. dadd p (dmul (double_of_int delta_t) (v b))) ^^ Suc k) (x b),
         y := ((\<lambda>p. dadd p (dmul (double_of_int delta_t) (w b))) ^^ Suc k) (y b),
         f := Fin 0, g := Fin 0 \<rparr>]"
proof (induction k)
  case 0
  show ?case
    using single_timestep [of "\<lparr> bodies = [b], calls = cs \<rparr>" b, OF _ assms] by simp
next
  case (Suc k)
  let ?b = "b\<lparr> x := ((\<lambda>p. dadd p (dmul (double_of_int delta_t) (v b))) ^^ Suc k) (x b),
         y := ((\<lambda>p. dadd p (dmul (double_of_int delta_t) (w b))) ^^ Suc k) (y b),
         f := Fin 0, g := Fin 0 \<rparr>"
  have "bodies (timestep delta_t (time_loop (Suc k) delta_t \<lparr> bodies = [b], calls = cs \<rparr>)) =
     [?b\<lparr> x := dadd (x ?b) (dmul (double_of_int delta_t) (v ?b)),
         y := dadd (y ?b) (dmul (double_of_int delta_t) (w ?b)),
         f := Fin 0, g := Fin 0 \<rparr>]"
    by (rule single_timestep [OF Suc, where mass = mass and vx = vx and vy = vy])
       (simp_all add: assms)
  then show ?case
    by (simp only: time_loop_Suc [of "Suc k"]) simp
qed

text \<open>
  Claim C4, as the program behaves. Take a population of one body with a finite mass
  that is not zero and a finite velocity. In every round its force is reset to zero
  and no call of \<^verbatim>\<open>fsum\<close> is made, so the force it is integrated with is zero and
  its velocity and mass stay what they were at the start. Its position does not stay:
  each round replaces \<open>x\<close> by \<open>x + delta_t * v\<close> and \<open>y\<close> by \<open>y + delta_t * w\<close>, computed
  in binary64 arithmetic with the initial velocity \<open>(v, w)\<close>.
\<close>

theorem single_body_run:
  assumes "m b = Fin mass" and "mass \<noteq> 0"
    and "v b = Fin vx" and "exact vx" and "w b = Fin vy" and "exact vy"
  shows "bodies (simulate iterations delta_t [b]) =
           [b\<lparr> x := ((\<lambda>p. dadd p (dmul (double_of_int delta_t) (v b))) ^^ nat iterations) (x b),
               y := ((\<lambda>p. dadd p (dmul (double_of_int delta_t) (w b))) ^^ nat iterations) (y b),
               f := (if 0 < iterations then Fin 0 else f b),
               g := (if 0 < iterations then Fin 0 else g b) \<rparr>]
       \<and> bodies (force_phase (simulate iterations delta_t [b])) =
           [b\<lparr> x := ((\<lambda>p. dadd p (dmul (double_of_int delta_t) (v b))) ^^ nat iterations) (x b),
               y := ((\<lambda>p. dadd p (dmul (double_of_int delta_t) (w b))) ^^ nat iterations) (y b),
               f := Fin 0, g := Fin 0 \<rparr>]
       \<and> calls (force_phase (simulate iterations delta_t [b])) = []"
proof -
  let ?s = "simulate iterations delta_t [b]"
  have run: "bodies ?s =
           [b\<lparr> x := ((\<lambda>p. dadd p (dmul (double_of_int delta_t) (v b))) ^^ nat iterations) (x b),
               y := ((\<lambda>p. dadd p (dmul (double_of_int delta_t) (w b))) ^^ nat iterations) (y b),
               f := (if 0 < iterations then Fin 0 else f b),
               g := (if 0 < iterations then Fin 0 else g b) \<rparr>]"
  proof (cases "nat iterations")
    case 0
    then have "\<not> 0 < iterations" by simp
    with 0 show ?thesis by (simp add: simulate_def)
  next
    case (Suc k)
    then have "0 < iterations" by simp
    with Suc single_time_loop [OF assms, of k delta_t "[]"] show ?thesis
      by (simp add: simulate_def)
  qed
  have "calls ?s = []"
    by (simp add: simulate_def single_calls_time_loop)
  with run single_force_phase [OF run] show ?thesis
    by simp
qed

theorem single_body_run_witness:
  "bodies (simulate 1 1 [\<lparr> m = Fin 1, x = Fin 0, y = Fin 0, v = Fin 1, w = Fin (- 1), f = Fin 0, g = Fin 0 \<rparr>])
   = [\<lparr> m = Fin 1, x = Fin 1, y = Fin (- 1), v = Fin 1, w = Fin (- 1), f = Fin 0, g = Fin 0 \<rparr>]"
  using single_body_run [of
      "\<lparr> m = Fin 1, x = Fin 0, y = Fin 0, v = Fin 1, w = Fin (- 1), f = Fin 0, g = Fin 0 \<rparr>"
      1 1 "- 1" 1 1]
  by (simp add: exact_def double_of_int_def rnd_1 rnd_uminus)

text \<open>A body of velocity \<open>(1, 0)\<close> at the origin has left it after one round.\<close>

theorem single_body_position_drifts:
  "x (bodies (simulate 1 1
        [\<lparr> m = Fin 1, x = Fin 0, y = Fin 0, v = Fin 1, w = Fin 0, f = Fin 0, g = Fin 0 \<rparr>]) ! 0)
   \<noteq> x \<lparr> m = Fin 1, x = Fin 0, y = Fin 0, v = Fin 1, w = Fin 0, f = Fin 0, g = Fin 0 \<rparr>"
proof -
  have "exact 1" "exact 0" by (simp_all add: exact_def rnd_1)
  from single_time_loop [of "\<lparr> m = Fin 1, x = Fin 0, y = Fin 0, v = Fin 1, w = Fin 0, f = Fin 0, g = Fin 0 \<rparr>" 1 1 0, OF _ _ _ this(1) _ this(2), of 0 1 "[]"]
  show ?thesis
    by (simp add: simulate_def double_of_int_def rnd_1)
qed

section \<open>Reset and accumulation of the force\<close>

lemma force_phase_ignores_old_force:
  "bodies (force_phase (s\<lparr> bodies := map (\<lambda>k. (bodies s ! k)\<lparr> f := p k, g := q k \<rparr>)
                                         [0 ..< length (bodies s)] \<rparr>))
   = bodies (force_phase s)"
proof -
  let ?n = "length (bodies s)"
  let ?bs = "map (\<lambda>k. (bodies s ! k)\<lparr> f := p k, g := q k \<rparr>) [0 ..< ?n]"
  have c: "contribution (?bs ! k) (?bs ! j) = contribution (bodies s ! k) (bodies s ! j)"
    if "k < ?n" and "j < ?n" for k j
    using that by simp
  have nf: "net_force ?bs k = net_force (bodies s) k" if "k < ?n" for k
  proof -
    have eq: "map (\<lambda>j. h (contribution (?bs ! k) (?bs ! j))) (filter (\<lambda>j. j \<noteq> k) [0 ..< ?n])
        = map (\<lambda>j. h (contribution (bodies s ! k) (bodies s ! j))) (filter (\<lambda>j. j \<noteq> k) [0 ..< ?n])"
      for h :: "double \<times> double \<Rightarrow> double"
      using that by (intro map_cong refl) (simp add: c)
    have "net_force ?bs k =
        (foldl dadd (Fin 0)
           (map (\<lambda>j. fst (contribution (?bs ! k) (?bs ! j))) (filter (\<lambda>j. j \<noteq> k) [0 ..< ?n])),
         foldl dadd (Fin 0)
           (map (\<lambda>j. snd (contribution (?bs ! k) (?bs ! j))) (filter (\<lambda>j. j \<noteq> k) [0 ..< ?n])))"
      by (simp add: net_force_def)
    also have "\<dots> = net_force (bodies s) k"
      by (simp only: eq net_force_def)
    finally show ?thesis .
  qed
  have "map (\<lambda>k. (?bs ! k)\<lparr> f := fst (net_force ?bs k), g := snd (net_force ?bs k) \<rparr>) [0 ..< ?n]
      = map (\<lambda>k. (bodies s ! k)\<lparr> f := fst (net_force (bodies s) k),
                                 g := snd (net_force (bodies s) k) \<rparr>) [0 ..< ?n]"
    by (intro map_cong refl) (simp add: nf)
  then show ?thesis
    by (simp add: bodies_force_phase)
qed

text \<open>
  Claim C6. In every round, for every body \<open>i\<close>, the force after the accumulation is
  the sum that starts from zero and adds, for \<open>j\<close> in increasing order and different
  from \<open>i\<close>, the contribution of body \<open>j\<close> to body \<open>i\<close>, which is what \<^verbatim>\<open>fsum\<close> adds:
  \<open>N - 1\<close> contributions of the current round. Nothing of the force that the bodies
  held before the round is left: started from any other forces, the accumulation ends
  with the same bodies.
\<close>

theorem force_reset_then_sum:
  assumes "i < length (bodies s)"
  shows "f (bodies (force_phase s) ! i) =
           foldl dadd (Fin 0)
             (map (\<lambda>j. fst (contribution (bodies s ! i) (bodies s ! j)))
                  (filter (\<lambda>j. j \<noteq> i) [0 ..< length (bodies s)]))
       \<and> g (bodies (force_phase s) ! i) =
           foldl dadd (Fin 0)
             (map (\<lambda>j. snd (contribution (bodies s ! i) (bodies s ! j)))
                  (filter (\<lambda>j. j \<noteq> i) [0 ..< length (bodies s)]))
       \<and> length (filter (\<lambda>j. j \<noteq> i) [0 ..< length (bodies s)]) = length (bodies s) - 1
       \<and> fsum a b = a\<lparr> f := dadd (f a) (fst (contribution a b)),
                        g := dadd (g a) (snd (contribution a b)) \<rparr>
       \<and> bodies (force_phase (s\<lparr> bodies := map (\<lambda>k. (bodies s ! k)\<lparr> f := p k, g := q k \<rparr>)
                                               [0 ..< length (bodies s)] \<rparr>))
           = bodies (force_phase s)"
proof -
  have "bodies (force_phase s) ! i =
          (bodies s ! i)\<lparr> f := fst (net_force (bodies s) i), g := snd (net_force (bodies s) i) \<rparr>"
    using assms by (simp add: bodies_force_phase)
  then have "f (bodies (force_phase s) ! i) = fst (net_force (bodies s) i)"
    and "g (bodies (force_phase s) ! i) = snd (net_force (bodies s) i)"
    by simp_all
  then show ?thesis
    using length_filter_neq_upt [OF assms] fsum_contribution [of a b]
      force_phase_ignores_old_force [where s = s and p = p and q = q]
    by (simp only: net_force_def fst_conv snd_conv simp_thms)
qed

theorem force_reset_then_sum_witness:
  "f (bodies (force_phase \<lparr> bodies =
       [\<lparr> m = Fin 1, x = Fin 0, y = Fin 0, v = Fin 0, w = Fin 0, f = Fin 5, g = Fin 7 \<rparr>,
        \<lparr> m = Fin 1, x = Fin 10, y = Fin 0, v = Fin 0, w = Fin 0, f = Fin 3, g = Fin 2 \<rparr>],
       calls = [] \<rparr>) ! 0) = Fin (2911126799132289 / 288230376151711744)
   \<and> g (bodies (force_phase \<lparr> bodies =
       [\<lparr> m = Fin 1, x = Fin 0, y = Fin 0, v = Fin 0, w = Fin 0, f = Fin 5, g = Fin 7 \<rparr>,
        \<lparr> m = Fin 1, x = Fin 10, y = Fin 0, v = Fin 0, w = Fin 0, f = Fin 3, g = Fin 2 \<rparr>],
       calls = [] \<rparr>) ! 0) = Fin 0"
proof -
  have "contribution \<lparr> m = Fin 1, x = Fin 0, y = Fin 0, v = Fin 0, w = Fin 0, f = Fin 5, g = Fin 7 \<rparr>
          \<lparr> m = Fin 1, x = Fin 10, y = Fin 0, v = Fin 0, w = Fin 0, f = Fin 3, g = Fin 2 \<rparr> = (Fin (2911126799132289 / 288230376151711744), Fin 0)"
    by (rule contribution_two_body(1) [OF rnd_literal rnd_c rnd_c_div rnd_s_mul]) simp_all
  then show ?thesis
    using force_reset_then_sum [of 0 "\<lparr> bodies =
       [\<lparr> m = Fin 1, x = Fin 0, y = Fin 0, v = Fin 0, w = Fin 0, f = Fin 5, g = Fin 7 \<rparr>,
        \<lparr> m = Fin 1, x = Fin 10, y = Fin 0, v = Fin 0, w = Fin 0, f = Fin 3, g = Fin 2 \<rparr>],
       calls = [] \<rparr>"]
    by (simp add: upt_rec rnd_F)
qed

section \<open>Bodies at the same place\<close>

lemma division_by_zero_gives_NaN:
  "dmul (ddiv n (Fin 0)) (Fin 0) = NaN" "dadd p NaN = NaN" "ddiv NaN p = NaN" "dmul p NaN = NaN"
  by (cases n; simp) (cases p; simp)+

text \<open>
  Claim C7, as the program behaves. \<^verbatim>\<open>fsum\<close> has no guard on the separation: for two
  bodies at the same finite coordinates the separation is zero, the scalar part of the
  force is a division by zero, and both components of the force it returns are NaN,
  whatever the masses and the force accumulated before. \<^verbatim>\<open>integrate\<close> then makes the
  velocity and the position of that body NaN. The only pair that the loops leave out is
  \<open>j = i\<close>.
\<close>

theorem fsum_coincident_nan:
  assumes "x a = Fin px" and "y a = Fin py" and "x b = Fin px" and "y b = Fin py"
  shows "f (fsum a b) = NaN \<and> g (fsum a b) = NaN
       \<and> v (integrate (fsum a b) dt) = NaN \<and> w (integrate (fsum a b) dt) = NaN
       \<and> x (integrate (fsum a b) dt) = NaN \<and> y (integrate (fsum a b) dt) = NaN"
proof -
  have z: "dmul (ddiv n (Fin 0)) (Fin 0) = NaN" for n
    by (cases n) simp_all
  have a: "dadd p NaN = NaN" for p
    by (cases p) simp_all
  have d: "ddiv NaN p = NaN" for p
    by (cases p) simp_all
  have k: "dmul p NaN = NaN" for p
    by (cases p) simp_all
  have "f (fsum a b) = NaN" "g (fsum a b) = NaN"
    using assms by (simp_all add: fsum_def dsub_def z a)
  then show ?thesis
    by (simp add: integrate_def Let_def a d k)
qed

theorem fsum_coincident_nan_witness:
  "f (fsum \<lparr> m = Fin 2, x = Fin 3, y = Fin 4, v = Fin 0, w = Fin 0, f = Fin 0, g = Fin 0 \<rparr>
           \<lparr> m = Fin 5, x = Fin 3, y = Fin 4, v = Fin 1, w = Fin 1, f = Fin 0, g = Fin 0 \<rparr>) = NaN
   \<and> x (integrate
          (fsum \<lparr> m = Fin 2, x = Fin 3, y = Fin 4, v = Fin 0, w = Fin 0, f = Fin 0, g = Fin 0 \<rparr>
                \<lparr> m = Fin 5, x = Fin 3, y = Fin 4, v = Fin 1, w = Fin 1, f = Fin 0, g = Fin 0 \<rparr>)
          (Fin 1)) = NaN"
  using fsum_coincident_nan [of
      "\<lparr> m = Fin 2, x = Fin 3, y = Fin 4, v = Fin 0, w = Fin 0, f = Fin 0, g = Fin 0 \<rparr>" 3 4
      "\<lparr> m = Fin 5, x = Fin 3, y = Fin 4, v = Fin 1, w = Fin 1, f = Fin 0, g = Fin 0 \<rparr>" "Fin 1"]
  by simp

text \<open>Two bodies of mass 1 at the origin: the force of the first is not finite after
  one call of \<^verbatim>\<open>fsum\<close>, and its position is not finite after one round.\<close>

theorem coincident_bodies_not_finite:
  "\<not> is_finite (f (fsum
        \<lparr> m = Fin 1, x = Fin 0, y = Fin 0, v = Fin 0, w = Fin 0, f = Fin 0, g = Fin 0 \<rparr>
        \<lparr> m = Fin 1, x = Fin 0, y = Fin 0, v = Fin 0, w = Fin 0, f = Fin 0, g = Fin 0 \<rparr>))
   \<and> \<not> is_finite (x (bodies (simulate 1 1
        [\<lparr> m = Fin 1, x = Fin 0, y = Fin 0, v = Fin 0, w = Fin 0, f = Fin 0, g = Fin 0 \<rparr>,
         \<lparr> m = Fin 1, x = Fin 0, y = Fin 0, v = Fin 0, w = Fin 0, f = Fin 0, g = Fin 0 \<rparr>]) ! 0))"
  by (simp add: simulate_def timestep_def integrate_phase_def force_phase_def fsum_def Let_def
      integrate_def double_of_int_def dsub_def upt_rec division_by_zero_gives_NaN)

section \<open>The arguments of the program\<close>

lemma isdigit_cases:
  "isdigit c \<Longrightarrow> \<not> isspace c \<and> c \<noteq> CHR ''-'' \<and> c \<noteq> CHR ''+'' \<and> 0 \<le> digit_value c"
  by (auto simp: isdigit_def isspace_def digit_value_def)

lemma not_isdigit_point: "\<not> isdigit CHR ''.''"
  by (simp add: isdigit_def)

lemma dec_value_nonneg: "0 \<le> acc \<Longrightarrow> \<forall>c \<in> set ds. isdigit c \<Longrightarrow> 0 \<le> dec_value acc ds"
proof (induction ds arbitrary: acc)
  case Nil
  then show ?case by simp
next
  case (Cons c ds)
  have "0 \<le> digit_value c" using Cons.prems isdigit_cases [of c] by simp
  then have "0 \<le> 10 * acc + digit_value c" using Cons.prems by simp
  then show ?case using Cons by simp
qed

lemma stoi_decimal_point:
  assumes ne: "ds \<noteq> []" and dig: "\<forall>c \<in> set ds. isdigit c" and le: "dec_value 0 ds \<le> INT_MAX"
  shows "stoi (ds @ CHR ''.'' # fs) = Inr (dec_value 0 ds, length ds)"
proof -
  obtain c cs where ds: "ds = c # cs" using ne by (cases ds) auto
  have c: "\<not> isspace c" "c \<noteq> CHR ''-''" "c \<noteq> CHR ''+''"
    using dig isdigit_cases [of c] by (simp_all add: ds)
  have tw: "takeWhile isdigit (ds @ CHR ''.'' # fs) = ds"
    using dig by (simp add: takeWhile_append2 not_isdigit_point)
  have nn: "0 \<le> dec_value 0 ds" using dig by (simp add: dec_value_nonneg)
  then have lo: "\<not> dec_value 0 ds < INT_MIN" by (simp add: INT_MIN_def)
  have sp: "takeWhile isspace (ds @ CHR ''.'' # fs) = []"
        "dropWhile isspace (ds @ CHR ''.'' # fs) = ds @ CHR ''.'' # fs"
    using c by (simp_all add: ds)
  have "stoi (c # cs @ CHR ''.'' # fs) = Inr (dec_value 0 (c # cs), length (c # cs))"
    using c tw lo le ne sp unfolding ds stoi_def
    by (simp add: Let_def)
  then show ?thesis by (simp add: ds)
qed

lemma stoi_range: "stoi arg = Inr (n, p) \<Longrightarrow> INT_MIN \<le> n \<and> n \<le> INT_MAX"
  by (auto simp: stoi_def Let_def split: if_splits prod.splits)

lemma int_of_double_of_int: "INT_MIN \<le> n \<Longrightarrow> n \<le> INT_MAX \<Longrightarrow> int_of_double (double_of_int n) = Some n"
  by (simp add: double_of_int_def)

lemma length_input_verify_loop [simp]:
  "length (fst (input_verify_loop vec is (verified, cerr))) = length verified"
  by (induction "is" arbitrary: verified cerr)
     (simp_all add: Let_def split: sum.splits prod.splits stoi_error.splits)

lemma verified_input_verify_loop:
  "i < length verified \<Longrightarrow>
   fst (input_verify_loop vec is (verified, cerr)) ! i =
     (if i \<in> set is
      then (case stoi (vec ! i) of Inr (n, p) \<Rightarrow> Some n | Inl e \<Rightarrow> verified ! i)
      else verified ! i)"
proof (induction "is" arbitrary: verified cerr)
  case Nil
  then show ?case by simp
next
  case (Cons a "is")
  show ?case
  proof (cases "stoi (vec ! a)")
    case (Inl e)
    with Cons show ?thesis
      by (cases e) (auto simp: Let_def)
  next
    case (Inr np)
    obtain n p where np: "np = (n, p)" by (cases np)
    have len: "i < length (verified[a := Some n])" using Cons.prems by simp
    show ?thesis
      using Cons.IH [OF len] Inr np Cons.prems
      by (cases "i = a") (auto simp: Let_def split: sum.splits)
  qed
qed

lemma cerr_input_verify_loop_mono:
  "set cerr \<subseteq> set (snd (input_verify_loop vec is (verified, cerr)))"
proof (induction "is" arbitrary: verified cerr)
  case Nil
  then show ?case by simp
next
  case (Cons a "is")
  show ?case
  proof (cases "stoi (vec ! a)")
    case (Inl e)
    show ?thesis
      using Cons.IH [of "cerr @ [''Invalid number: '' @ vec ! a]" verified]
        Cons.IH [of "cerr @ [''Number out of range: '' @ vec ! a]" verified] Inl
      by (cases e) (auto simp: Let_def)
  next
    case (Inr np)
    obtain n p where np: "np = (n, p)" by (cases np)
    show ?thesis
      using Cons.IH [of "cerr @ [''Trailing characters after number: '' @ vec ! a]" "verified[a := Some n]"]
        Cons.IH [of cerr "verified[a := Some n]"] Inr np
      by (auto simp: Let_def)
  qed
qed

lemma cerr_input_verify_loop_trailing:
  "i \<in> set is \<Longrightarrow> stoi (vec ! i) = Inr (n, p) \<Longrightarrow> p < length (vec ! i) \<Longrightarrow>
   ''Trailing characters after number: '' @ vec ! i \<in> set (snd (input_verify_loop vec is (verified, cerr)))"
proof (induction "is" arbitrary: verified cerr)
  case Nil
  then show ?case by simp
next
  case (Cons a "is")
  show ?case
  proof (cases "a = i")
    case True
    have "''Trailing characters after number: '' @ vec ! i
            \<in> set (cerr @ [''Trailing characters after number: '' @ vec ! i])" by simp
    then show ?thesis
      using cerr_input_verify_loop_mono
        [of "cerr @ [''Trailing characters after number: '' @ vec ! i]" vec "is" "verified[i := Some n]"]
        True Cons.prems
      by (auto simp: Let_def)
  next
    case False
    then have i: "i \<in> set is" using Cons.prems by simp
    show ?thesis
    proof (cases "stoi (vec ! a)")
      case (Inl e)
      with Cons.IH [OF i Cons.prems(2,3)] show ?thesis
        by (cases e) (auto simp: Let_def)
    next
      case (Inr np)
      obtain n' p' where np: "np = (n', p')" by (cases np)
      with Inr Cons.IH [OF i Cons.prems(2,3)] show ?thesis
        by (auto simp: Let_def)
    qed
  qed
qed

lemma main_arguments_default:
  "length inputs \<le> 3 \<Longrightarrow> snd (main_arguments inputs) = Inr (num_bodies, iterations, delta_t)
   \<Longrightarrow> delta_t = 1"
  by (auto simp: main_arguments_def Let_def split_beta INT_MIN_def INT_MAX_def
      split: sum.splits if_splits)

lemma main_arguments_fractional:
  assumes len: "3 < length inputs"
    and a1: "stoi (inputs ! 1) = Inr (num_bodies, p1)"
    and a2: "stoi (inputs ! 2) = Inr (iterations, p2)"
    and a3: "inputs ! 3 = ds @ CHR ''.'' # fs"
    and ds: "ds \<noteq> []" "\<forall>c \<in> set ds. isdigit c" "dec_value 0 ds \<le> INT_MAX"
  shows "snd (main_arguments inputs) = Inr (num_bodies, iterations, dec_value 0 ds)"
    and "''Trailing characters after number: '' @ inputs ! 3 \<in> set (fst (main_arguments inputs))"
proof -
  let ?r = "input_verify_loop inputs [1 ..< length inputs] (replicate (length inputs) None, [])"
  have s3: "stoi (inputs ! 3) = Inr (dec_value 0 ds, length ds)"
    unfolding a3 by (rule stoi_decimal_point [OF ds])
  have v: "fst ?r ! k = (case stoi (inputs ! k) of Inr (n, p) \<Rightarrow> Some n | Inl e \<Rightarrow> None)"
    if "1 \<le> k" "k < length inputs" for k
    using that verified_input_verify_loop [of k "replicate (length inputs) None" inputs
        "[1 ..< length inputs]" "[]"]
    by (simp split: sum.splits)
  have v1: "fst ?r ! 1 = Some num_bodies" using v [of 1] len a1 by simp
  have v2: "fst ?r ! 2 = Some iterations" using v [of 2] len a2 by simp
  have v3: "fst ?r ! 3 = Some (dec_value 0 ds)" using v [of 3] len s3 by simp
  have rng: "INT_MIN \<le> dec_value 0 ds" "dec_value 0 ds \<le> INT_MAX"
    using stoi_range [OF s3] by simp_all
  show "snd (main_arguments inputs) = Inr (num_bodies, iterations, dec_value 0 ds)"
    using len v1 v2 v3 int_of_double_of_int [OF rng]
    by (simp add: main_arguments_def input_verify_stoi_def read_input_def Let_def split_beta)
  have i3: "3 \<in> set [1 ..< length inputs]" using len by simp
  have p3: "length ds < length (inputs ! 3)" by (simp add: a3)
  have "''Trailing characters after number: '' @ inputs ! 3 \<in> set (snd ?r)"
    by (rule cerr_input_verify_loop_trailing [OF i3 s3 p3])
  then show "''Trailing characters after number: '' @ inputs ! 3 \<in> set (fst (main_arguments inputs))"
    by (simp add: main_arguments_def input_verify_stoi_def Let_def split_beta)
qed

lemmas arg_eval = main_arguments_def input_verify_stoi_def read_input_def stoi_def isspace_def
  isdigit_def digit_value_def INT_MIN_def INT_MAX_def double_of_int_def upt_rec

text \<open>
  Claim C8, at two inputs. For the argument \<^verbatim>\<open>abc\<close> in the place of the number of
  bodies the program writes \<^verbatim>\<open>Invalid number: abc\<close> on \<^verbatim>\<open>std::cerr\<close>, stores
  nothing in \<^verbatim>\<open>input[1]\<close> and then reads it: the number of bodies is not the default
  10 but an uninitialised value. The same happens for a number of iterations that is
  out of the range of \<^verbatim>\<open>int\<close>.
\<close>

theorem invalid_argument_read_uninitialised:
  "main_arguments [''./main'', ''abc'']
     = ([''Invalid number: abc''], Inl (Uninitialised_read 1))
   \<and> main_arguments [''./main'', ''5'', ''99999999999'']
     = ([''Number out of range: 99999999999''], Inl (Uninitialised_read 2))"
  by (simp add: arg_eval)

text \<open>
  Claim C9, as the program behaves. The time step is the \<^verbatim>\<open>int\<close> variable
  \<^verbatim>\<open>delta_t\<close>, converted to \<^verbatim>\<open>double\<close> at each call of \<^verbatim>\<open>integrate\<close>. With no
  fourth element of \<^verbatim>\<open>argv\<close> the default \<open>1.0\<close> becomes 1. With a time-step argument
  that is a non-empty run of decimal digits (of a value in the range of \<^verbatim>\<open>int\<close>),
  a point and anything after it, \<^verbatim>\<open>std::stoi\<close> reads the digits only: \<^verbatim>\<open>delta_t\<close> is
  the integer they denote, the simulation runs with it, and the program writes
  \<^verbatim>\<open>Trailing characters after number:\<close> and the argument on \<^verbatim>\<open>std::cerr\<close>.
\<close>

theorem timestep_stored_as_int:
  "(length args \<le> 3 \<and> snd (main_arguments args) = Inr (n0, it0, dt0) \<longrightarrow> dt0 = 1)
   \<and> (3 < length inputs
        \<and> stoi (inputs ! 1) = Inr (num_bodies, p1) \<and> 0 \<le> num_bodies
        \<and> stoi (inputs ! 2) = Inr (iterations, p2)
        \<and> inputs ! 3 = ds @ CHR ''.'' # fs
        \<and> ds \<noteq> [] \<and> (\<forall>c \<in> set ds. isdigit c) \<and> dec_value 0 ds \<le> INT_MAX
      \<longrightarrow> snd (main_arguments inputs) = Inr (num_bodies, iterations, dec_value 0 ds)
        \<and> ''Trailing characters after number: '' @ inputs ! 3 \<in> set (fst (main_arguments inputs))
        \<and> snd (main inputs population) =
            Inr (simulate iterations (dec_value 0 ds) (map population [0 ..< nat num_bodies])))
   \<and> bodies (integrate_phase delta_t s) = map (\<lambda>b. integrate b (double_of_int delta_t)) (bodies s)"
proof (intro conjI impI)
  assume "length args \<le> 3 \<and> snd (main_arguments args) = Inr (n0, it0, dt0)"
  then show "dt0 = 1" using main_arguments_default by blast
next
  assume h: "3 < length inputs
        \<and> stoi (inputs ! 1) = Inr (num_bodies, p1) \<and> 0 \<le> num_bodies
        \<and> stoi (inputs ! 2) = Inr (iterations, p2)
        \<and> inputs ! 3 = ds @ CHR ''.'' # fs
        \<and> ds \<noteq> [] \<and> (\<forall>c \<in> set ds. isdigit c) \<and> dec_value 0 ds \<le> INT_MAX"
  then have len: "3 < length inputs"
    and a1: "stoi (inputs ! 1) = Inr (num_bodies, p1)"
    and a2: "stoi (inputs ! 2) = Inr (iterations, p2)"
    and a3: "inputs ! 3 = ds @ CHR ''.'' # fs"
    and ds: "ds \<noteq> []" "\<forall>c \<in> set ds. isdigit c" "dec_value 0 ds \<le> INT_MAX"
    by simp_all
  show r: "snd (main_arguments inputs) = Inr (num_bodies, iterations, dec_value 0 ds)"
    by (rule main_arguments_fractional(1) [OF len a1 a2 a3 ds])
  show "''Trailing characters after number: '' @ inputs ! 3 \<in> set (fst (main_arguments inputs))"
    by (rule main_arguments_fractional(2) [OF len a1 a2 a3 ds])
  from h r show "snd (main inputs population) =
            Inr (simulate iterations (dec_value 0 ds) (map population [0 ..< nat num_bodies]))"
    by (cases "main_arguments inputs") (simp add: main_def)
next
  show "bodies (integrate_phase delta_t s) = map (\<lambda>b. integrate b (double_of_int delta_t)) (bodies s)"
    by (rule bodies_integrate_phase)
qed

theorem timestep_stored_as_int_witness:
  "snd (main_arguments [''./main'']) = Inr (10, 100, 1)
   \<and> snd (main_arguments [''./main'', ''2'', ''3'', ''2.75'']) = Inr (2, 3, 2)
   \<and> ''Trailing characters after number: 2.75''
        \<in> set (fst (main_arguments [''./main'', ''2'', ''3'', ''2.75'']))"
  using timestep_stored_as_int [of "[''./main'']" 10 100 1
      "[''./main'', ''2'', ''3'', ''2.75'']" 2 1 3 1 "''2''" "''75''"]
  by (simp add: arg_eval)

text \<open>The time step \<^verbatim>\<open>0.5\<close> becomes 0 with a line on \<^verbatim>\<open>std::cerr\<close>; the time step
  \<^verbatim>\<open>.5\<close> is reported as invalid and leaves \<^verbatim>\<open>delta_t\<close> without a value.\<close>

theorem fractional_timestep_not_silent:
  "main_arguments [''./main'', ''2'', ''3'', ''0.5'']
     = ([''Trailing characters after number: 0.5''], Inr (2, 3, 0))
   \<and> main_arguments [''./main'', ''2'', ''3'', ''.5'']
     = ([''Invalid number: .5''], Inl (Uninitialised_read 3))"
  by (simp add: arg_eval)

end
